theory Spec2Isabelle
  imports Main
begin

section \<open>Python values\<close>

text \<open>
  A Python \<open>str\<close> is a sequence of Unicode code points, a \<open>bytes\<close> object a sequence
  of octets. Text literals of the source are written \<open>str ''...''\<close>.
\<close>

type_synonym pystr = "nat list"
type_synonym bytes = "char list"

definition str :: "string \<Rightarrow> pystr" where
  "str cs = map of_char cs"

text \<open>
  The objects the server handles are the ones \<open>json.loads\<close> builds: \<open>None\<close>, \<open>bool\<close>,
  \<open>int\<close>, \<open>float\<close>, \<open>str\<close>, \<open>list\<close> and \<open>dict\<close> with \<open>str\<close> keys. A \<open>dict\<close> keeps its
  keys in insertion order, so it is an association list. A \<open>float\<close> is kept as the numeral
  text it was read from: no function of the server computes with one.
\<close>

datatype json =
    JNull
  | JBool bool
  | JInt int
  | JFloat pystr
  | JStr pystr
  | JList "json list"
  | JObj "(pystr \<times> json) list"

text \<open>\<open>d[k] = v\<close> and \<open>d.update({k: v})\<close>: an existing key keeps its place.\<close>

fun dict_set :: "(pystr \<times> json) list \<Rightarrow> pystr \<Rightarrow> json \<Rightarrow> (pystr \<times> json) list" where
  "dict_set [] k v = [(k, v)]"
| "dict_set ((k', v') # d) k v = (if k' = k then (k, v) # d else (k', v') # dict_set d k v)"

text \<open>The exception classes that the modelled code can meet.\<close>

datatype py_exc =
    JSONDecodeError
  | KeyError
  | TypeError
  | UnicodeDecodeError
  | UnicodeEncodeError
  | TimeoutExpired
  | SubprocessFailure
  | SocketTimeout
  | SocketError
  | ConnectionError
  | FileNotFoundError
  | FileError
  | EOFError

text \<open>\<open>sub in s\<close> on two \<open>str\<close> values.\<close>

fun str_contains :: "pystr \<Rightarrow> pystr \<Rightarrow> bool" where
  "str_contains sub [] = (sub = [])"
| "str_contains sub (c # cs) = (take (length sub) (c # cs) = sub \<or> str_contains sub cs)"

section \<open>Batch Codec: \<open>json.dumps\<close>\<close>

definition hex_digit :: "nat \<Rightarrow> nat" where
  "hex_digit d = (if d < 10 then 48 + d else 87 + d)"

definition u_escape :: "nat \<Rightarrow> pystr" where
  "u_escape n = [92, 117, hex_digit (n div 4096 mod 16), hex_digit (n div 256 mod 16),
                 hex_digit (n div 16 mod 16), hex_digit (n mod 16)]"

definition escape_ascii :: "nat \<Rightarrow> pystr" where
  "escape_ascii c =
     (if c = 92 then [92, 92]
      else if c = 34 then [92, 34]
      else if 32 \<le> c \<and> c \<le> 126 then [c]
      else if c = 8 then [92, 98]
      else if c = 12 then [92, 102]
      else if c = 10 then [92, 110]
      else if c = 13 then [92, 114]
      else if c = 9 then [92, 116]
      else if c < 0x10000 then u_escape c
      else (let n = c - 0x10000;
                s1 = 0xd800 + n div 1024 mod 1024;
                s2 = 0xdc00 + n mod 1024
            in u_escape s1 @ u_escape s2))"

definition encode_basestring_ascii :: "pystr \<Rightarrow> pystr" where
  "encode_basestring_ascii s = 34 # concat (map escape_ascii s) @ [34]"

fun dec_digits :: "nat \<Rightarrow> pystr" where
  "dec_digits n = (if n < 10 then [48 + n] else dec_digits (n div 10) @ [48 + n mod 10])"

declare dec_digits.simps [simp del]

definition int_repr :: "int \<Rightarrow> pystr" where
  "int_repr i = (if i < 0 then 45 # dec_digits (nat (- i)) else dec_digits (nat i))"

fun json_dumps :: "(pystr \<Rightarrow> pystr) \<Rightarrow> json \<Rightarrow> pystr"
  and dumps_items :: "(pystr \<Rightarrow> pystr) \<Rightarrow> json list \<Rightarrow> pystr"
  and dumps_pairs :: "(pystr \<Rightarrow> pystr) \<Rightarrow> (pystr \<times> json) list \<Rightarrow> pystr" where
  "json_dumps fr JNull = str ''null''"
| "json_dumps fr (JBool b) = (if b then str ''true'' else str ''false'')"
| "json_dumps fr (JInt i) = int_repr i"
| "json_dumps fr (JFloat x) = fr x"
| "json_dumps fr (JStr s) = encode_basestring_ascii s"
| "json_dumps fr (JList xs) = 91 # dumps_items fr xs @ [93]"
| "json_dumps fr (JObj d) = 123 # dumps_pairs fr d @ [125]"
| "dumps_items fr [] = []"
| "dumps_items fr [x] = json_dumps fr x"
| "dumps_items fr (x # y # ys) = json_dumps fr x @ [44, 32] @ dumps_items fr (y # ys)"
| "dumps_pairs fr [] = []"
| "dumps_pairs fr [(k, v)] = encode_basestring_ascii k @ [58, 32] @ json_dumps fr v"
| "dumps_pairs fr ((k, v) # p # ps) =
     encode_basestring_ascii k @ [58, 32] @ json_dumps fr v @ [44, 32] @ dumps_pairs fr (p # ps)"

declare json_dumps.simps [simp del]


section \<open>Batch Codec: \<open>json.loads\<close>\<close>

definition is_ws :: "nat \<Rightarrow> bool" where
  "is_ws c = (c = 32 \<or> c = 9 \<or> c = 10 \<or> c = 13)"

definition skip_ws :: "pystr \<Rightarrow> pystr" where
  "skip_ws cs = dropWhile is_ws cs"

definition is_digit :: "nat \<Rightarrow> bool" where
  "is_digit c = (48 \<le> c \<and> c \<le> 57)"

definition hex_val :: "nat \<Rightarrow> nat option" where
  "hex_val c =
     (if 48 \<le> c \<and> c \<le> 57 then Some (c - 48)
      else if 97 \<le> c \<and> c \<le> 102 then Some (c - 87)
      else if 65 \<le> c \<and> c \<le> 70 then Some (c - 55)
      else None)"

definition decode_uXXXX :: "pystr \<Rightarrow> nat option" where
  "decode_uXXXX cs =
     (case map hex_val (take 4 cs) of
        [Some a, Some b, Some c, Some d] \<Rightarrow> Some (((a * 16 + b) * 16 + c) * 16 + d)
      | _ \<Rightarrow> None)"

definition backslash :: "nat \<Rightarrow> nat option" where
  "backslash e =
     (if e = 34 then Some 34
      else if e = 92 then Some 92
      else if e = 47 then Some 47
      else if e = 98 then Some 8
      else if e = 102 then Some 12
      else if e = 110 then Some 10
      else if e = 114 then Some 13
      else if e = 116 then Some 9
      else None)"

definition append_char :: "nat \<Rightarrow> (pystr \<times> pystr) option \<Rightarrow> (pystr \<times> pystr) option" where
  "append_char c r = (case r of None \<Rightarrow> None | Some (s, rest) \<Rightarrow> Some (c # s, rest))"

function scanstring :: "pystr \<Rightarrow> (pystr \<times> pystr) option" where
  "scanstring [] = None"
| "scanstring (c # cs) =
     (if c = 34 then Some ([], cs)
      else if c = 92 then
        (case cs of
           [] \<Rightarrow> None
         | esc # es \<Rightarrow>
             if esc \<noteq> 117 then
               (case backslash esc of
                  None \<Rightarrow> None
                | Some char \<Rightarrow> append_char char (scanstring es))
             else
               (case decode_uXXXX es of
                  None \<Rightarrow> None
                | Some uni \<Rightarrow>
                    if 0xd800 \<le> uni \<and> uni \<le> 0xdbff \<and> take 2 (drop 4 es) = [92, 117] then
                      (case decode_uXXXX (drop 6 es) of
                         None \<Rightarrow> None
                       | Some uni2 \<Rightarrow>
                           if 0xdc00 \<le> uni2 \<and> uni2 \<le> 0xdfff then
                             append_char (0x10000 + ((uni - 0xd800) * 1024 + (uni2 - 0xdc00)))
                               (scanstring (drop 10 es))
                           else append_char uni (scanstring (drop 4 es)))
                    else append_char uni (scanstring (drop 4 es))))
      else if c < 32 then None
      else append_char c (scanstring cs))"
  by pat_completeness auto
termination
  by (relation "measure length") auto

declare scanstring.simps [simp del]

text \<open>The number pattern \<open>(-?(?:0|[1-9]\d*))(\.\d+)?([eE][-+]?\d+)?\<close>, matched at the head.\<close>

definition match_integer :: "pystr \<Rightarrow> (pystr \<times> pystr) option" where
  "match_integer cs =
     (let (sign, ds) = (case cs of c # r \<Rightarrow> if c = 45 then ([45], r) else ([], cs) | [] \<Rightarrow> ([], cs))
      in case ds of
           [] \<Rightarrow> None
         | d # r \<Rightarrow>
             if d = 48 then Some (sign @ [48], r)
             else if is_digit d then Some (sign @ d # takeWhile is_digit r, dropWhile is_digit r)
             else None)"

definition match_frac :: "pystr \<Rightarrow> pystr \<times> pystr" where
  "match_frac cs =
     (case cs of
        c # d # r \<Rightarrow>
          if c = 46 \<and> is_digit d then (c # takeWhile is_digit (d # r), dropWhile is_digit (d # r))
          else ([], cs)
      | _ \<Rightarrow> ([], cs))"

definition match_exp :: "pystr \<Rightarrow> pystr \<times> pystr" where
  "match_exp cs =
     (case cs of
        [] \<Rightarrow> ([], cs)
      | e # r \<Rightarrow>
          if e = 101 \<or> e = 69 then
            (let (sign, ds) =
                   (case r of s # r' \<Rightarrow> if s = 45 \<or> s = 43 then ([s], r') else ([], r) | [] \<Rightarrow> ([], r))
             in case ds of
                  [] \<Rightarrow> ([], cs)
                | d # _ \<Rightarrow>
                    if is_digit d then (e # sign @ takeWhile is_digit ds, dropWhile is_digit ds)
                    else ([], cs))
          else ([], cs))"

definition nat_of_digits :: "pystr \<Rightarrow> nat" where
  "nat_of_digits ds = foldl (\<lambda>n d. 10 * n + (d - 48)) 0 ds"

definition parse_int :: "pystr \<Rightarrow> int" where
  "parse_int s =
     (case s of
        [] \<Rightarrow> 0
      | c # r \<Rightarrow> if c = 45 then - int (nat_of_digits r) else int (nat_of_digits s))"

definition match_number :: "pystr \<Rightarrow> (json \<times> pystr) option" where
  "match_number cs =
     (case match_integer cs of
        None \<Rightarrow> None
      | Some (integer, r1) \<Rightarrow>
          (let (frac, r2) = match_frac r1; (exp, r3) = match_exp r2
           in if frac \<noteq> [] \<or> exp \<noteq> [] then Some (JFloat (integer @ frac @ exp), r3)
              else Some (JInt (parse_int integer), r3)))"

datatype 'a scan = Parsed 'a pystr | Invalid | OutOfFuel

definition startswith :: "pystr \<Rightarrow> pystr \<Rightarrow> bool" where
  "startswith cs p = (take (length p) cs = p)"

definition dict_of_pairs :: "(pystr \<times> json) list \<Rightarrow> (pystr \<times> json) list" where
  "dict_of_pairs ps = foldl (\<lambda>d (k, v). dict_set d k v) [] ps"

fun scan_once :: "nat \<Rightarrow> pystr \<Rightarrow> json scan"
  and array_loop :: "nat \<Rightarrow> pystr \<Rightarrow> json list \<Rightarrow> json scan"
  and object_loop :: "nat \<Rightarrow> pystr \<Rightarrow> (pystr \<times> json) list \<Rightarrow> json scan" where
  "scan_once n cs =
     (case cs of
        [] \<Rightarrow> Invalid
      | nextchar # rest \<Rightarrow>
          if nextchar = 34 then
            (case scanstring rest of None \<Rightarrow> Invalid | Some (s, r) \<Rightarrow> Parsed (JStr s) r)
          else if nextchar = 123 then
            (case skip_ws rest of
               [] \<Rightarrow> Invalid
             | c # r \<Rightarrow>
                 if c = 125 then Parsed (JObj []) r
                 else if c = 34 then object_loop n r []
                 else Invalid)
          else if nextchar = 91 then
            (case skip_ws rest of
               [] \<Rightarrow> Invalid
             | c # r \<Rightarrow> if c = 93 then Parsed (JList []) r else array_loop n (c # r) [])
          else if startswith cs (str ''null'') then Parsed JNull (drop 4 cs)
          else if startswith cs (str ''true'') then Parsed (JBool True) (drop 4 cs)
          else if startswith cs (str ''false'') then Parsed (JBool False) (drop 5 cs)
          else
            (case match_number cs of
               Some (res, r) \<Rightarrow> Parsed res r
             | None \<Rightarrow>
                 if startswith cs (str ''NaN'') then Parsed (JFloat (str ''NaN'')) (drop 3 cs)
                 else if startswith cs (str ''Infinity'') then
                   Parsed (JFloat (str ''Infinity'')) (drop 8 cs)
                 else if startswith cs (str ''-Infinity'') then
                   Parsed (JFloat (str ''-Infinity'')) (drop 9 cs)
                 else Invalid))"
| "array_loop 0 cs values = OutOfFuel"
| "array_loop (Suc n) cs values =
     (case scan_once n cs of
        Parsed v r \<Rightarrow>
          (case skip_ws r of
             [] \<Rightarrow> Invalid
           | c # r' \<Rightarrow>
               if c = 93 then Parsed (JList (values @ [v])) r'
               else if c = 44 then array_loop n (skip_ws r') (values @ [v])
               else Invalid)
      | Invalid \<Rightarrow> Invalid
      | OutOfFuel \<Rightarrow> OutOfFuel)"
| "object_loop 0 cs pairs = OutOfFuel"
| "object_loop (Suc n) cs pairs =
     (case scanstring cs of
        None \<Rightarrow> Invalid
      | Some (key, r) \<Rightarrow>
          (case skip_ws r of
             [] \<Rightarrow> Invalid
           | c # r1 \<Rightarrow>
               if c \<noteq> 58 then Invalid
               else
                 (case scan_once n (skip_ws r1) of
                    Parsed v r2 \<Rightarrow>
                      (case skip_ws r2 of
                         [] \<Rightarrow> Invalid
                       | c' # r3 \<Rightarrow>
                           if c' = 125 then Parsed (JObj (dict_of_pairs (pairs @ [(key, v)]))) r3
                           else if c' = 44 then
                             (case skip_ws r3 of
                                [] \<Rightarrow> Invalid
                              | q # r4 \<Rightarrow>
                                  if q = 34 then object_loop n r4 (pairs @ [(key, v)])
                                  else Invalid)
                           else Invalid)
                  | Invalid \<Rightarrow> Invalid
                  | OutOfFuel \<Rightarrow> OutOfFuel)))"

declare scan_once.simps [simp del]

text \<open>\<open>JSONDecoder.decode\<close>: one value, white space around it, nothing else.\<close>

definition decode :: "pystr \<Rightarrow> json option" where
  "decode s =
     (case scan_once (length s) (skip_ws s) of
        Parsed obj r \<Rightarrow> if skip_ws r = [] then Some obj else None
      | _ \<Rightarrow> None)"

section \<open>Text encodings\<close>

text \<open>
  \<open>bytes.decode('utf-8')\<close> on the octet values of a \<open>bytes\<close> object; \<open>None\<close> is
  \<open>UnicodeDecodeError\<close>. With the error handler \<open>surrogatepass\<close> (the first argument)
  the three-octet forms of the surrogates U+D800..U+DFFF are accepted.
\<close>

definition is_cont :: "nat \<Rightarrow> bool" where
  "is_cont b = (0x80 \<le> b \<and> b \<le> 0xBF)"

definition cons_opt :: "'a \<Rightarrow> 'a list option \<Rightarrow> 'a list option" where
  "cons_opt c r = (case r of None \<Rightarrow> None | Some s \<Rightarrow> Some (c # s))"

fun utf8_decode :: "bool \<Rightarrow> nat list \<Rightarrow> pystr option" where
  "utf8_decode sp [] = Some []"
| "utf8_decode sp (b # bs) =
     (if b < 0x80 then cons_opt b (utf8_decode sp bs)
      else if 0xC2 \<le> b \<and> b \<le> 0xDF then
        (case bs of
           b1 # r \<Rightarrow>
             if is_cont b1 then cons_opt ((b - 0xC0) * 64 + (b1 - 0x80)) (utf8_decode sp r)
             else None
         | _ \<Rightarrow> None)
      else if 0xE0 \<le> b \<and> b \<le> 0xEF then
        (case bs of
           b1 # b2 # r \<Rightarrow>
             (let cp = (b - 0xE0) * 4096 + (b1 - 0x80) * 64 + (b2 - 0x80)
              in if is_cont b1 \<and> is_cont b2 \<and> 0x800 \<le> cp
                    \<and> (sp \<or> \<not> (0xD800 \<le> cp \<and> cp \<le> 0xDFFF))
                 then cons_opt cp (utf8_decode sp r)
                 else None)
         | _ \<Rightarrow> None)
      else if 0xF0 \<le> b \<and> b \<le> 0xF4 then
        (case bs of
           b1 # b2 # b3 # r \<Rightarrow>
             (let cp = (b - 0xF0) * 262144 + (b1 - 0x80) * 4096 + (b2 - 0x80) * 64 + (b3 - 0x80)
              in if is_cont b1 \<and> is_cont b2 \<and> is_cont b3 \<and> 0x10000 \<le> cp \<and> cp \<le> 0x10FFFF
                 then cons_opt cp (utf8_decode sp r)
                 else None)
         | _ \<Rightarrow> None)
      else None)"

definition bytes_decode :: "bytes \<Rightarrow> pystr option" where
  "bytes_decode b = utf8_decode False (map of_char b)"

text \<open>\<open>str.encode()\<close>: UTF-8, \<open>None\<close> is \<open>UnicodeEncodeError\<close> (a surrogate code point).\<close>

fun utf8_encode :: "pystr \<Rightarrow> nat list option" where
  "utf8_encode [] = Some []"
| "utf8_encode (c # cs) =
     (case utf8_encode cs of
        None \<Rightarrow> None
      | Some bs \<Rightarrow>
          if c < 0x80 then Some (c # bs)
          else if c < 0x800 then Some ((0xC0 + c div 64) # (0x80 + c mod 64) # bs)
          else if 0xD800 \<le> c \<and> c \<le> 0xDFFF then None
          else if c < 0x10000 then
            Some ((0xE0 + c div 4096) # (0x80 + c div 64 mod 64) # (0x80 + c mod 64) # bs)
          else
            Some ((0xF0 + c div 262144) # (0x80 + c div 4096 mod 64) # (0x80 + c div 64 mod 64)
                  # (0x80 + c mod 64) # bs))"

definition str_encode :: "pystr \<Rightarrow> bytes option" where
  "str_encode s = map_option (map char_of) (utf8_encode s)"

text \<open>\<open>json.detect_encoding\<close>, on the octet values.\<close>

datatype encoding = UTF8 | UTF8_SIG | UTF16 | UTF16_BE | UTF16_LE | UTF32 | UTF32_BE | UTF32_LE

definition detect_encoding :: "nat list \<Rightarrow> encoding" where
  "detect_encoding b =
     (if startswith b [0x00, 0x00, 0xFE, 0xFF] \<or> startswith b [0xFF, 0xFE, 0x00, 0x00] then UTF32
      else if startswith b [0xFE, 0xFF] \<or> startswith b [0xFF, 0xFE] then UTF16
      else if startswith b [0xEF, 0xBB, 0xBF] then UTF8_SIG
      else if length b \<ge> 4 then
        (if b ! 0 = 0 then (if b ! 1 \<noteq> 0 then UTF16_BE else UTF32_BE)
         else if b ! 1 = 0 then (if b ! 2 \<noteq> 0 \<or> b ! 3 \<noteq> 0 then UTF16_LE else UTF32_LE)
         else UTF8)
      else if length b = 2 then
        (if b ! 0 = 0 then UTF16_BE else if b ! 1 = 0 then UTF16_LE else UTF8)
      else UTF8)"

text \<open>
  Two parts of the interpreter are taken as given: its UTF-16 and UTF-32 decoders
  (\<open>None\<close> is \<open>UnicodeDecodeError\<close>), and the text \<open>json.dumps\<close> writes for the
  \<open>float\<close> read from a numeral.
\<close>

record runtime =
  decode_wide :: "encoding \<Rightarrow> bytes \<Rightarrow> pystr option"
  float_repr :: "pystr \<Rightarrow> pystr"

text \<open>
  \<open>json.loads(s)\<close> on a \<open>bytes\<close> argument:
  \<open>s.decode(detect_encoding(s), 'surrogatepass')\<close>, then \<open>JSONDecoder.decode\<close>.
\<close>

definition loads_text :: "runtime \<Rightarrow> bytes \<Rightarrow> pystr option" where
  "loads_text rt s =
     (case detect_encoding (map of_char s) of
        UTF8 \<Rightarrow> utf8_decode True (map of_char s)
      | UTF8_SIG \<Rightarrow> utf8_decode True (drop 3 (map of_char s))
      | enc \<Rightarrow> decode_wide rt enc s)"

definition json_loads :: "runtime \<Rightarrow> bytes \<Rightarrow> py_exc + json" where
  "json_loads rt s =
     (case loads_text rt s of
        None \<Rightarrow> Inl UnicodeDecodeError
      | Some t \<Rightarrow> (case decode t of None \<Rightarrow> Inl JSONDecodeError | Some obj \<Rightarrow> Inr obj))"


section \<open>Command Executor: \<open>Server.execute_cmd\<close>\<close>

text \<open>
  \<open>subprocess.run(cmd, shell=True, text=True, capture_output=True, timeout=self.cmd_timeout)\<close>
  is the environment: a state transformer \<open>run\<close> on the state of the host, which either
  returns a completed process or raises. \<open>TimeoutExpired\<close> is raised when the configured
  timeout elapses; \<open>SubprocessFailure\<close> stands for every other exception of
  \<open>subprocess.run\<close> (\<open>OSError\<close>, \<open>ValueError\<close>, ...).
\<close>

datatype run_outcome =
    Completed (returncode: int) (stdout: pystr) (stderr: pystr)
  | Timeout
  | Failure

type_synonym 'w subprocess_run = "json \<Rightarrow> 'w \<Rightarrow> run_outcome \<times> 'w"

definition command_result :: "int \<Rightarrow> pystr \<Rightarrow> pystr \<Rightarrow> (pystr \<times> json) list" where
  "command_result rc out err =
     (let status = (if rc = 0 then True else False);
          error_code = (if str_contains (str ''not found'') err then 3 else 0)
      in [(str ''status'', JBool status), (str ''stdout'', JStr out),
          (str ''stderr'', JStr err), (str ''error_code'', JInt error_code)])"

definition execute_cmd ::
  "'w subprocess_run \<Rightarrow> json \<Rightarrow> 'w \<Rightarrow> (py_exc + (pystr \<times> json) list) \<times> 'w" where
  "execute_cmd run cmd w =
     (case run cmd w of
        (Completed rc out err, w') \<Rightarrow> (Inr (command_result rc out err), w')
      | (Timeout, w') \<Rightarrow> (Inl TimeoutExpired, w')
      | (Failure, w') \<Rightarrow> (Inl SubprocessFailure, w'))"

section \<open>Request Dispatcher: \<open>Server.request_parser\<close>\<close>

text \<open>\<open>obj[key]\<close> with a \<open>str\<close> key, and the elements a \<open>for\<close> loop over \<open>obj\<close> visits.\<close>

fun subscript :: "json \<Rightarrow> pystr \<Rightarrow> py_exc + json" where
  "subscript (JObj d) key = (case map_of d key of None \<Rightarrow> Inl KeyError | Some v \<Rightarrow> Inr v)"
| "subscript _ key = Inl TypeError"

fun iterate :: "json \<Rightarrow> py_exc + json list" where
  "iterate (JList xs) = Inr xs"
| "iterate (JObj d) = Inr (map (\<lambda>(k, v). JStr k) d)"
| "iterate (JStr s) = Inr (map (\<lambda>c. JStr [c]) s)"
| "iterate _ = Inl TypeError"

text \<open>
  The body of the \<open>for\<close> loop, with \<open>result["response"]\<close> as accumulator. The first
  statement evaluates \<open>cmd["method"]\<close> and runs the command; only the second one evaluates
  \<open>cmd["id"]\<close>.
\<close>

fun run_commands ::
  "'w subprocess_run \<Rightarrow> json list \<Rightarrow> json list \<Rightarrow> 'w \<Rightarrow> (py_exc + json list) \<times> 'w" where
  "run_commands run [] response w = (Inr response, w)"
| "run_commands run (cmd # cmds) response w =
     (case subscript cmd (str ''method'') of
        Inl e \<Rightarrow> (Inl e, w)
      | Inr method \<Rightarrow>
          (case execute_cmd run method w of
             (Inl e, w') \<Rightarrow> (Inl e, w')
           | (Inr res, w') \<Rightarrow>
               (case subscript cmd (str ''id'') of
                  Inl e \<Rightarrow> (Inl e, w')
                | Inr i \<Rightarrow>
                    run_commands run cmds (response @ [JObj (dict_set res (str ''id'') i)]) w')))"

text \<open>
  The \<open>try\<close> block, in two steps: the object \<open>result\<close> when the \<open>return\<close> statement is
  reached, and the value \<open>json.dumps(result)\<close> that is returned. \<open>Inl\<close> is the
  exception that leaves the block.
\<close>

definition request_parser_result ::
  "runtime \<Rightarrow> 'w subprocess_run \<Rightarrow> bytes \<Rightarrow> 'w \<Rightarrow> (py_exc + json) \<times> 'w" where
  "request_parser_result rt run data w =
     (case json_loads rt data of
        Inl e \<Rightarrow> (Inl e, w)
      | Inr obj \<Rightarrow>
          (case subscript obj (str ''commands'') of
             Inl e \<Rightarrow> (Inl e, w)
           | Inr commands \<Rightarrow>
               (case iterate commands of
                  Inl e \<Rightarrow> (Inl e, w)
                | Inr cmds \<Rightarrow>
                    (case run_commands run cmds [] w of
                       (Inl e, w') \<Rightarrow> (Inl e, w')
                     | (Inr response, w') \<Rightarrow>
                         (Inr (JObj [(str ''response'', JList response)]), w')))))"

definition request_parser_try ::
  "runtime \<Rightarrow> 'w subprocess_run \<Rightarrow> bytes \<Rightarrow> 'w \<Rightarrow> (py_exc + pystr) \<times> 'w" where
  "request_parser_try rt run data w =
     (case request_parser_result rt run data w of
        (Inl e, w') \<Rightarrow> (Inl e, w')
      | (Inr result, w') \<Rightarrow> (Inr (json_dumps (float_repr rt) result), w'))"

text \<open>The \<open>except\<close> clauses, in the order of the source.\<close>

definition error_code_of :: "py_exc \<Rightarrow> int" where
  "error_code_of e = (if e = JSONDecodeError then 1 else if e = KeyError then 2 else 4)"

definition error_response :: "int \<Rightarrow> json" where
  "error_response error_code =
     JObj [(str ''response'', JObj [(str ''status'', JBool False), (str ''error_code'', JInt error_code)])]"

definition request_parser ::
  "runtime \<Rightarrow> 'w subprocess_run \<Rightarrow> bytes \<Rightarrow> 'w \<Rightarrow> pystr \<times> 'w" where
  "request_parser rt run data w =
     (case request_parser_try rt run data w of
        (Inr result, w') \<Rightarrow> (result, w')
      | (Inl e, w') \<Rightarrow> (json_dumps (float_repr rt) (error_response (error_code_of e)), w'))"

section \<open>Connection Handler: \<open>Server.handle_client\<close>\<close>

text \<open>
  The connection is the environment: what \<open>conn.recv(1024)\<close> and \<open>conn.sendall\<close> do is
  given, and the handler is described by the calls it makes on the connection, in order.
  The \<open>print\<close> calls are left out, but not the \<open>data.decode('utf-8')\<close> that the second
  one evaluates first.
\<close>

datatype recv_result = Received bytes | RecvTimeout | RecvError
datatype send_result = Sent | SendTimeout | SendError
datatype conn_call = SetTimeout | Recv nat | SendAll bytes | Close

definition handle_client_try ::
  "runtime \<Rightarrow> 'w subprocess_run \<Rightarrow> recv_result \<Rightarrow> send_result \<Rightarrow> 'w
     \<Rightarrow> py_exc option \<times> conn_call list \<times> 'w" where
  "handle_client_try rt run rcv sent w =
     (case rcv of
        RecvTimeout \<Rightarrow> (Some SocketTimeout, [SetTimeout, Recv 1024], w)
      | RecvError \<Rightarrow> (Some SocketError, [SetTimeout, Recv 1024], w)
      | Received data \<Rightarrow>
          if data \<noteq> [] then
            (case bytes_decode data of
               None \<Rightarrow> (Some UnicodeDecodeError, [SetTimeout, Recv 1024], w)
             | Some text \<Rightarrow>
                 (case request_parser rt run data w of
                    (result, w') \<Rightarrow>
                      (case str_encode result of
                         None \<Rightarrow> (Some UnicodeEncodeError, [SetTimeout, Recv 1024], w')
                       | Some payload \<Rightarrow>
                           (case sent of
                              Sent \<Rightarrow> None
                            | SendTimeout \<Rightarrow> Some SocketTimeout
                            | SendError \<Rightarrow> Some SocketError,
                            [SetTimeout, Recv 1024, SendAll payload], w'))))
          else (None, [SetTimeout, Recv 1024], w))"

text \<open>Both \<open>except\<close> clauses only print; \<open>finally\<close> closes the connection.\<close>

definition handle_client ::
  "runtime \<Rightarrow> 'w subprocess_run \<Rightarrow> recv_result \<Rightarrow> send_result \<Rightarrow> 'w \<Rightarrow> conn_call list \<times> 'w" where
  "handle_client rt run rcv sent w =
     (case handle_client_try rt run rcv sent w of (e, calls, w') \<Rightarrow> (calls @ [Close], w'))"

section \<open>Request Builder: \<open>Client.get_cmd\<close> and \<open>Client.generate_request\<close>\<close>

text \<open>\<open>str.strip()\<close> removes the characters for which \<open>str.isspace\<close> holds, at both ends.\<close>

definition isspace :: "nat \<Rightarrow> bool" where
  "isspace c =
     ((0x09 \<le> c \<and> c \<le> 0x0D) \<or> (0x1C \<le> c \<and> c \<le> 0x20) \<or> c = 0x85 \<or> c = 0xA0 \<or> c = 0x1680
      \<or> (0x2000 \<le> c \<and> c \<le> 0x200A) \<or> c = 0x2028 \<or> c = 0x2029 \<or> c = 0x202F \<or> c = 0x205F
      \<or> c = 0x3000)"

definition strip :: "pystr \<Rightarrow> pystr" where
  "strip s = rev (dropWhile isspace (rev (dropWhile isspace s)))"

text \<open>
  The environment of the client: what \<open>open(file_path, 'r')\<close> followed by \<open>readlines()\<close>
  gives for a path (\<open>Unreadable\<close> is any failure other than \<open>FileNotFoundError\<close>), the lines
  still to be typed at the prompt of \<open>input\<close>, and the generator behind
  \<open>str(uuid.uuid4())\<close>. The pairs \<open>(True, value)\<close> and \<open>(False, message)\<close> that the methods
  return are the two constructors of \<open>status_pair\<close>.
\<close>

datatype file_result = Lines "pystr list" | NotFound | Unreadable

datatype 'a status_pair = StatusTrue 'a | StatusFalse pystr

type_synonym 'r uuid4 = "'r \<Rightarrow> pystr \<times> 'r"

definition read_commands :: "(pystr \<Rightarrow> file_result) \<Rightarrow> pystr option \<Rightarrow> py_exc + pystr list" where
  "read_commands fs file_path =
     (case file_path of
        None \<Rightarrow> Inl TypeError
      | Some path \<Rightarrow>
          (case fs path of
             NotFound \<Rightarrow> Inl FileNotFoundError
           | Unreadable \<Rightarrow> Inl FileError
           | Lines lines \<Rightarrow> if lines = [] then Inl TypeError else Inr (map strip lines)))"

definition get_cmd ::
  "(pystr \<Rightarrow> file_result) \<Rightarrow> pystr option \<Rightarrow> pystr list
     \<Rightarrow> (py_exc + pystr list status_pair) \<times> pystr list" where
  "get_cmd fs file_path stdin =
     (case read_commands fs file_path of
        Inr cmd \<Rightarrow> (Inr (StatusTrue cmd), stdin)
      | Inl e \<Rightarrow>
          if e = FileNotFoundError then (Inr (StatusFalse (str ''Unable to locate file!'')), stdin)
          else if e = TypeError then
            (case stdin of
               [] \<Rightarrow> (Inl EOFError, stdin)
             | line # typed \<Rightarrow> (Inr (StatusTrue [line]), typed))
          else (Inl e, stdin))"

fun build_commands :: "'r uuid4 \<Rightarrow> pystr list \<Rightarrow> json list \<Rightarrow> 'r \<Rightarrow> json list \<times> 'r" where
  "build_commands uuid4 [] commands r = (commands, r)"
| "build_commands uuid4 (cmd # data) commands r =
     (case uuid4 r of
        (u, r') \<Rightarrow>
          build_commands uuid4 data
            (commands @ [JObj [(str ''id'', JStr u), (str ''method'', JStr cmd)]]) r')"

definition generate_request ::
  "runtime \<Rightarrow> (pystr \<Rightarrow> file_result) \<Rightarrow> 'r uuid4 \<Rightarrow> pystr option \<Rightarrow> pystr list \<Rightarrow> 'r
     \<Rightarrow> (py_exc + pystr status_pair) \<times> pystr list \<times> 'r" where
  "generate_request rt fs uuid4 file_path stdin r =
     (case get_cmd fs file_path stdin of
        (Inl e, stdin') \<Rightarrow> (Inl e, stdin', r)
      | (Inr (StatusTrue data), stdin') \<Rightarrow>
          (case build_commands uuid4 data [] r of
             (commands, r') \<Rightarrow>
               (Inr (StatusTrue (json_dumps (float_repr rt) (JObj [(str ''commands'', JList commands)]))),
                stdin', r'))
      | (Inr (StatusFalse data), stdin') \<Rightarrow> (Inr (StatusFalse data), stdin', r))"

section \<open>Transport Client: \<open>Client.send_request\<close>\<close>

text \<open>
  The calls on the client socket, in order. The \<open>with\<close> statement closes the socket on
  every way out of its body.
\<close>

datatype connect_result = Connected | ConnectFailed
datatype client_call = Connect | ClientSendAll bytes | ClientRecv nat | ClientClose

definition send_request_body ::
  "runtime \<Rightarrow> (pystr \<Rightarrow> file_result) \<Rightarrow> 'r uuid4 \<Rightarrow> connect_result \<Rightarrow> send_result \<Rightarrow> recv_result
     \<Rightarrow> pystr option \<Rightarrow> pystr list \<Rightarrow> 'r \<Rightarrow> (py_exc + pystr) \<times> client_call list \<times> pystr list \<times> 'r" where
  "send_request_body rt fs uuid4 conn sent rcv file_path stdin r =
     (case conn of
        ConnectFailed \<Rightarrow> (Inl ConnectionError, [Connect], stdin, r)
      | Connected \<Rightarrow>
          (case generate_request rt fs uuid4 file_path stdin r of
             (Inl e, stdin', r') \<Rightarrow> (Inl e, [Connect], stdin', r')
           | (Inr req, stdin', r') \<Rightarrow>
               (case (case req of
                        StatusFalse message \<Rightarrow> Inr [Connect]
                      | StatusTrue request \<Rightarrow>
                          (case str_encode request of
                             None \<Rightarrow> Inl (UnicodeEncodeError, [Connect])
                           | Some payload \<Rightarrow>
                               (case sent of
                                  Sent \<Rightarrow> Inr [Connect, ClientSendAll payload]
                                | SendTimeout \<Rightarrow> Inl (SocketTimeout, [Connect, ClientSendAll payload])
                                | SendError \<Rightarrow> Inl (SocketError, [Connect, ClientSendAll payload])))) of
                  Inl (e, calls) \<Rightarrow> (Inl e, calls, stdin', r')
                | Inr calls \<Rightarrow>
                    (case rcv of
                       RecvTimeout \<Rightarrow> (Inl SocketTimeout, calls @ [ClientRecv 1024], stdin', r')
                     | RecvError \<Rightarrow> (Inl SocketError, calls @ [ClientRecv 1024], stdin', r')
                     | Received data \<Rightarrow>
                         (case bytes_decode data of
                            None \<Rightarrow> Inl UnicodeDecodeError
                          | Some text \<Rightarrow> Inr text,
                          calls @ [ClientRecv 1024], stdin', r')))))"

definition send_request ::
  "runtime \<Rightarrow> (pystr \<Rightarrow> file_result) \<Rightarrow> 'r uuid4 \<Rightarrow> connect_result \<Rightarrow> send_result \<Rightarrow> recv_result
     \<Rightarrow> pystr option \<Rightarrow> pystr list \<Rightarrow> 'r \<Rightarrow> (py_exc + pystr) \<times> client_call list \<times> pystr list \<times> 'r" where
  "send_request rt fs uuid4 conn sent rcv file_path stdin r =
     (case send_request_body rt fs uuid4 conn sent rcv file_path stdin r of
        (res, calls, stdin', r') \<Rightarrow> (res, calls @ [ClientClose], stdin', r'))"

section \<open>Vocabulary of the properties\<close>

text \<open>
  The outcomes of running a list of command texts in order, each in the state the
  previous one left, and the state at the end.
\<close>

fun run_all :: "'w subprocess_run \<Rightarrow> json list \<Rightarrow> 'w \<Rightarrow> run_outcome list \<times> 'w" where
  "run_all run [] w = ([], w)"
| "run_all run (m # ms) w =
     (case run m w of (r, w') \<Rightarrow> (case run_all run ms w' of (rs, w'') \<Rightarrow> (r # rs, w'')))"

fun completed :: "run_outcome \<Rightarrow> bool" where
  "completed (Completed rc out err) = True"
| "completed _ = False"

text \<open>An entry of \<open>commands\<close> that has the fields \<open>id\<close> and \<open>method\<close>, with these values.\<close>

definition is_command :: "json \<Rightarrow> json \<times> json \<Rightarrow> bool" where
  "is_command c im =
     (subscript c (str ''id'') = Inr (fst im) \<and> subscript c (str ''method'') = Inr (snd im))"

text \<open>
  A concrete environment for the examples: an interpreter whose UTF-16 and UTF-32 decoders
  are never reached, and a host that knows three kinds of command and counts the commands
  it has run.
\<close>

definition test_runtime :: runtime where
  "test_runtime = \<lparr>decode_wide = (\<lambda>enc b. None), float_repr = (\<lambda>x. x)\<rparr>"

definition sample_run :: "nat subprocess_run" where
  "sample_run cmd n =
     (if cmd = JStr (str ''echo hi'') then Completed 0 [104, 105, 10] []
      else if cmd = JStr (str ''sleep 100'') then Timeout
      else Completed 127 [] (str ''sh: 1: foo: not found''), Suc n)"



text \<open>For the examples of the client: a generator that counts, and three files.\<close>

definition sample_uuid4 :: "nat uuid4" where
  "sample_uuid4 n = (str ''6fa459ea-ee8a-4ca4-894e-db77e160355'' @ [48 + n mod 10], Suc n)"

definition sample_files :: "pystr \<Rightarrow> file_result" where
  "sample_files path =
     (if path = str ''commands.txt'' then Lines [str ''  ls -la  '' @ [10], str ''pwd'' @ [10]]
      else if path = str ''empty.txt'' then Lines []
      else NotFound)"

text \<open>
  The values on which the codec is exact. A text is well formed when its code points are
  below \<open>0x110000\<close> and no high surrogate is directly followed by a low one; a value is
  well formed when it holds no \<open>float\<close>, its texts are well formed and the keys of each
  \<open>dict\<close> are distinct.
\<close>

definition is_high :: "nat \<Rightarrow> bool" where
  "is_high c = (0xD800 \<le> c \<and> c \<le> 0xDBFF)"

definition is_low :: "nat \<Rightarrow> bool" where
  "is_low c = (0xDC00 \<le> c \<and> c \<le> 0xDFFF)"

fun wf_text :: "pystr \<Rightarrow> bool" where
  "wf_text [] = True"
| "wf_text [c] = (c < 0x110000)"
| "wf_text (c # d # cs) = (c < 0x110000 \<and> \<not> (is_high c \<and> is_low d) \<and> wf_text (d # cs))"

fun wf_json :: "json \<Rightarrow> bool"
  and wf_items :: "json list \<Rightarrow> bool"
  and wf_pairs :: "(pystr \<times> json) list \<Rightarrow> bool" where
  "wf_json JNull = True"
| "wf_json (JBool b) = True"
| "wf_json (JInt i) = True"
| "wf_json (JFloat x) = False"
| "wf_json (JStr s) = wf_text s"
| "wf_json (JList xs) = wf_items xs"
| "wf_json (JObj d) = (distinct (map fst d) \<and> wf_pairs d)"
| "wf_items [] = True"
| "wf_items (x # xs) = (wf_json x \<and> wf_items xs)"
| "wf_pairs [] = True"
| "wf_pairs ((k, v) # ps) = (wf_text k \<and> wf_json v \<and> wf_pairs ps)"

text \<open>Auxiliary notions of the proofs about the codec.\<close>

definition lookahead_ok :: "pystr \<Rightarrow> bool" where
  "lookahead_ok X = (take 2 X = [92, 117] \<longrightarrow> (\<exists>u. decode_uXXXX (drop 2 X) = Some u \<and> \<not> is_low u))"

definition number_end :: "pystr \<Rightarrow> bool" where
  "number_end rest = (case rest of [] \<Rightarrow> True | c # r \<Rightarrow> \<not> is_digit c \<and> c \<noteq> 46 \<and> c \<noteq> 101 \<and> c \<noteq> 69)"

definition delimited :: "pystr \<Rightarrow> bool" where
  "delimited rest = (case rest of [] \<Rightarrow> True | c # r \<Rightarrow> c = 44 \<or> c = 93 \<or> c = 125)"

definition value_start :: "nat \<Rightarrow> bool" where
  "value_start c = (c = 110 \<or> c = 116 \<or> c = 102 \<or> c = 34 \<or> c = 91 \<or> c = 123 \<or> c = 45 \<or> is_digit c)"

definition printable :: "pystr \<Rightarrow> bool" where
  "printable s = (\<forall>c \<in> set s. 32 \<le> c \<and> c \<le> 126)"

section \<open>Properties of the Command Executor\<close>

lemma str_Nil [simp]: "str [] = []"
  by (simp add: str_def)

lemma str_Cons [simp]: "str (c # cs) = of_char c # str cs"
  by (simp add: str_def)

text \<open>
  Claim C5. A command execution that completes within the timeout gives a result whose
  \<open>status\<close> is true exactly when the exit code is zero, whose \<open>stdout\<close> and \<open>stderr\<close>
  are the captured texts, and whose \<open>error_code\<close> is 3 when the error text contains
  \<open>not found\<close> and 0 otherwise.
\<close>

theorem execute_cmd_completed:
  "run cmd w = (Completed rc out err, w') \<Longrightarrow>
   execute_cmd run cmd w =
     (Inr [(str ''status'', JBool (rc = 0)), (str ''stdout'', JStr out), (str ''stderr'', JStr err),
           (str ''error_code'', JInt (if str_contains (str ''not found'') err then 3 else 0))], w')"
  by (simp add: execute_cmd_def command_result_def)

theorem execute_cmd_completed_witness:
  "(\<lambda>cmd w. (Completed 0 (str ''hi'') [], w)) (JStr (str ''echo hi'')) ()
     = (Completed 0 (str ''hi'') [], ())
   \<and> execute_cmd (\<lambda>cmd w. (Completed 0 (str ''hi'') [], w)) (JStr (str ''echo hi'')) () =
     (Inr [(str ''status'', JBool True), (str ''stdout'', JStr (str ''hi'')),
           (str ''stderr'', JStr []), (str ''error_code'', JInt 0)], ())"
  using execute_cmd_completed [of "\<lambda>cmd w. (Completed 0 (str ''hi'') [], w)"
      "JStr (str ''echo hi'')" "()" 0 "str ''hi''" "[]" "()"]
  by simp

text \<open>
  Claim C4, as stated, fails: a command that writes \<open>not found\<close> to its error stream and
  exits with code zero gets \<open>error_code\<close> 3 but \<open>status\<close> true.
\<close>

theorem execute_cmd_not_found_counterexample:
  "str_contains (str ''not found'') (str ''not found'')
   \<and> execute_cmd (\<lambda>cmd w. (Completed 0 [] (str ''not found''), w))
         (JStr (str ''echo not found >&2'')) () =
     (Inr [(str ''status'', JBool True), (str ''stdout'', JStr []),
           (str ''stderr'', JStr (str ''not found'')), (str ''error_code'', JInt 3)], ())"
  by (simp add: execute_cmd_def command_result_def)

text \<open>
  Claim C4, amended. When the captured error text contains \<open>not found\<close>, the result has
  \<open>error_code\<close> 3 whatever the exit code is; its \<open>status\<close> still follows the exit code
  alone, and is false only for a non-zero one.
\<close>

theorem execute_cmd_not_found:
  "run cmd w = (Completed rc out err, w') \<Longrightarrow> str_contains (str ''not found'') err \<Longrightarrow>
   \<exists>d. execute_cmd run cmd w = (Inr d, w')
     \<and> map_of d (str ''error_code'') = Some (JInt 3)
     \<and> map_of d (str ''status'') = Some (JBool (rc = 0))"
  by (simp add: execute_cmd_def command_result_def)

theorem execute_cmd_not_found_witness:
  "(\<lambda>cmd w. (Completed 127 [] (str ''sh: 1: foo: not found''), w)) (JStr (str ''foo'')) ()
     = (Completed 127 [] (str ''sh: 1: foo: not found''), ())
   \<and> str_contains (str ''not found'') (str ''sh: 1: foo: not found'')
   \<and> (\<exists>d. execute_cmd (\<lambda>cmd w. (Completed 127 [] (str ''sh: 1: foo: not found''), w))
              (JStr (str ''foo'')) () = (Inr d, ())
          \<and> map_of d (str ''error_code'') = Some (JInt 3)
          \<and> map_of d (str ''status'') = Some (JBool False))"
  using execute_cmd_not_found [of "\<lambda>cmd w. (Completed 127 [] (str ''sh: 1: foo: not found''), w)"
      "JStr (str ''foo'')" "()" 127 "[]" "str ''sh: 1: foo: not found''" "()"]
  by simp

section \<open>Properties of the Request Dispatcher\<close>

lemma map_of_dict_set_same [simp]: "map_of (dict_set d k v) k = Some v"
  by (induction d k v rule: dict_set.induct) auto

lemma map_of_dict_set_other [simp]: "k' \<noteq> k \<Longrightarrow> map_of (dict_set d k v) k' = map_of d k'"
  by (induction d k v rule: dict_set.induct) auto

lemma execute_cmd_cases:
  "execute_cmd run m w =
     (case run m w of
        (Completed rc out err, w') \<Rightarrow> (Inr (command_result rc out err), w')
      | (Timeout, w') \<Rightarrow> (Inl TimeoutExpired, w')
      | (Failure, w') \<Rightarrow> (Inl SubprocessFailure, w'))"
  by (simp add: execute_cmd_def)


lemma run_commands_raises:
  "list_all2 is_command before cs \<Longrightarrow> run_all run (map snd cs) w = (outs, w1) \<Longrightarrow>
   list_all completed outs \<Longrightarrow> subscript c (str ''method'') = Inr m \<Longrightarrow>
   run m w1 = (r, w2) \<Longrightarrow> \<not> completed r \<Longrightarrow>
   run_commands run (before @ c # after) response w =
     (Inl (if r = Timeout then TimeoutExpired else SubprocessFailure), w2)"
proof (induction before cs arbitrary: response w outs rule: list_all2_induct)
  case Nil
  then show ?case by (cases r) (simp_all add: execute_cmd_def)
next
  case (Cons c' cmds im cs)
  obtain r' w' where r: "run (snd im) w = (r', w')" by (cases "run (snd im) w")
  obtain rs w'' where rs: "run_all run (map snd cs) w' = (rs, w'')" by (cases "run_all run (map snd cs) w'")
  from Cons.prems r rs have outs: "outs = r' # rs" "w1 = w''" by auto
  with Cons.prems have "completed r'" "list_all completed rs" by auto
  then obtain rc out err where rc: "r' = Completed rc out err" by (cases r') auto
  from rs outs have rs': "run_all run (map snd cs) w' = (rs, w1)" by simp
  show ?case
    using Cons.hyps(1) r rc Cons.IH [OF rs' \<open>list_all completed rs\<close> Cons.prems(3,4,5)]
    by (simp add: is_command_def execute_cmd_def)
qed

lemma cons_opt_simps [simp]: "cons_opt c None = None" "cons_opt c (Some s) = Some (c # s)"
  by (simp_all add: cons_opt_def)

lemma append_char_simps [simp]:
  "append_char c None = None" "append_char c (Some (s, r)) = Some (c # s, r)"
  by (simp_all add: append_char_def)

lemmas loads_eval = scan_once.simps json_loads_def loads_text_def detect_encoding_def startswith_def decode_def
  skip_ws_def is_ws_def scanstring.simps dict_of_pairs_def match_number_def match_integer_def
  match_frac_def match_exp_def is_digit_def backslash_def parse_int_def nat_of_digits_def

lemmas dumps_eval = json_dumps.simps encode_basestring_ascii_def escape_ascii_def int_repr_def dec_digits.simps
  error_response_def error_code_of_def

lemmas parser_eval = request_parser_def request_parser_try_def request_parser_result_def execute_cmd_def command_result_def



text \<open>
  Claim C1, as stated, fails: in a batch of three commands whose second one times out, the
  response is the single error object with \<open>error_code\<close> 4, not three results, and the
  third command is not run (the host has run two commands).
\<close>

theorem request_parser_aborts_counterexample:
  "request_parser test_runtime sample_run
     ''{\"commands\": [{\"id\": \"1\", \"method\": \"echo hi\"}, {\"id\": \"2\", \"method\": \"sleep 100\"}, {\"id\": \"3\", \"method\": \"echo hi\"}]}'' 0
   = (str ''{\"response\": {\"status\": false, \"error_code\": 4}}'', 2)"
  by (simp add: parser_eval loads_eval dumps_eval test_runtime_def sample_run_def)

text \<open>
  Claim C1, amended. When the execution of a command of a well-formed request raises
  (a timeout included), the failure is caught once for the whole batch: the response is
  the single error object with \<open>status\<close> false and \<open>error_code\<close> 4, the results of the
  commands before it are dropped, and the commands after it are not run.
\<close>

theorem request_parser_command_raises:
  assumes "json_loads rt data = Inr request"
    and "subscript request (str ''commands'') = Inr (JList (before @ c # after))"
    and "list_all2 is_command before cs"
    and "run_all run (map snd cs) w = (outs, w1)"
    and "list_all completed outs"
    and "subscript c (str ''method'') = Inr m"
    and "run m w1 = (r, w2)"
    and "\<not> completed r"
  shows "request_parser rt run data w = (json_dumps (float_repr rt) (error_response 4), w2)"
  using assms(1,2) run_commands_raises [OF assms(3-8), of after "[]"]
  by (simp add: request_parser_def request_parser_try_def request_parser_result_def error_code_of_def)

theorem request_parser_command_raises_witness:
  "json_loads test_runtime
      ''{\"commands\": [{\"id\": \"1\", \"method\": \"echo hi\"}, {\"id\": \"2\", \"method\": \"sleep 100\"}, {\"id\": \"3\", \"method\": \"echo hi\"}]}''
     = Inr (JObj [(str ''commands'', JList ([JObj [(str ''id'', JStr (str ''1'')), (str ''method'', JStr (str ''echo hi''))]]
            @ JObj [(str ''id'', JStr (str ''2'')), (str ''method'', JStr (str ''sleep 100''))]
            # [JObj [(str ''id'', JStr (str ''3'')), (str ''method'', JStr (str ''echo hi''))]]))])
   \<and> list_all2 is_command [JObj [(str ''id'', JStr (str ''1'')), (str ''method'', JStr (str ''echo hi''))]]
         [(JStr (str ''1''), JStr (str ''echo hi''))]
   \<and> run_all sample_run [JStr (str ''echo hi'')] 0 = ([Completed 0 [104, 105, 10] []], 1)
   \<and> sample_run (JStr (str ''sleep 100'')) 1 = (Timeout, 2)
   \<and> \<not> completed Timeout
   \<and> request_parser test_runtime sample_run
      ''{\"commands\": [{\"id\": \"1\", \"method\": \"echo hi\"}, {\"id\": \"2\", \"method\": \"sleep 100\"}, {\"id\": \"3\", \"method\": \"echo hi\"}]}'' 0
     = (json_dumps (float_repr test_runtime) (error_response 4), 2)"
proof -
  let ?c1 = "JObj [(str ''id'', JStr (str ''1'')), (str ''method'', JStr (str ''echo hi''))]"
  let ?c2 = "JObj [(str ''id'', JStr (str ''2'')), (str ''method'', JStr (str ''sleep 100''))]"
  let ?c3 = "JObj [(str ''id'', JStr (str ''3'')), (str ''method'', JStr (str ''echo hi''))]"
  let ?data = "''{\"commands\": [{\"id\": \"1\", \"method\": \"echo hi\"}, {\"id\": \"2\", \"method\": \"sleep 100\"}, {\"id\": \"3\", \"method\": \"echo hi\"}]}''"
  have l: "json_loads test_runtime ?data = Inr (JObj [(str ''commands'', JList ([?c1] @ ?c2 # [?c3]))])"
    by (simp add: loads_eval test_runtime_def)
  have s: "subscript (JObj [(str ''commands'', JList ([?c1] @ ?c2 # [?c3]))]) (str ''commands'')
      = Inr (JList ([?c1] @ ?c2 # [?c3]))"
    by simp
  have c: "list_all2 is_command [?c1] [(JStr (str ''1''), JStr (str ''echo hi''))]"
    by (simp add: is_command_def)
  have r: "run_all sample_run (map snd [(JStr (str ''1''), JStr (str ''echo hi''))]) 0
      = ([Completed 0 [104, 105, 10] []], 1)"
    by (simp add: sample_run_def)
  have o: "list_all completed [Completed 0 [104, 105, 10] []]" by simp
  have m: "subscript ?c2 (str ''method'') = Inr (JStr (str ''sleep 100''))" by simp
  have t: "sample_run (JStr (str ''sleep 100'')) 1 = (Timeout, 2)" by (simp add: sample_run_def)
  have n: "\<not> completed Timeout" by simp
  from request_parser_command_raises [OF l s c r o m t n] l c r t n show ?thesis by simp
qed





text \<open>
  Claim C6. For every input the dispatcher returns a response text: a list of results, or
  the single error object with \<open>error_code\<close> 1, 2 or 4; and every exception leaving the
  \<open>try\<close> block other than the two anticipated ones gives \<open>error_code\<close> 4.
\<close>

theorem request_parser_always_responds:
  "\<exists>response w'. request_parser rt run data w = (json_dumps (float_repr rt) response, w')
     \<and> ((\<exists>results. response = JObj [(str ''response'', JList results)])
          \<or> response = error_response 1 \<or> response = error_response 2
          \<or> response = error_response 4)
     \<and> (\<forall>e. fst (request_parser_try rt run data w) = Inl e \<and> e \<noteq> JSONDecodeError \<and> e \<noteq> KeyError
            \<longrightarrow> response = error_response 4)"
proof (cases "request_parser_try rt run data w")
  case (Pair res w')
  show ?thesis
  proof (cases res)
    case (Inl e)
    with Pair have "request_parser rt run data w
        = (json_dumps (float_repr rt) (error_response (error_code_of e)), w')"
      by (simp add: request_parser_def)
    with Pair Inl show ?thesis by (auto simp: error_code_of_def)
  next
    case (Inr result)
    with Pair obtain results where
      "result = json_dumps (float_repr rt) (JObj [(str ''response'', JList results)])"
      by (auto simp: request_parser_try_def request_parser_result_def split: sum.splits prod.splits)
    with Pair Inr show ?thesis by (auto simp: request_parser_def)
  qed
qed

theorem request_parser_always_responds_witness:
  "fst (request_parser_try test_runtime sample_run [CHR 0xFF] 0) = Inl UnicodeDecodeError
   \<and> fst (request_parser_try test_runtime sample_run ''{\"commands\": 5}'' 0) = Inl TypeError
   \<and> fst (request_parser_try test_runtime sample_run ''{\"commands\": [{\"id\": \"7\", \"method\": \"sleep 100\"}]}'' 0)
        = Inl TimeoutExpired
   \<and> request_parser test_runtime sample_run [CHR 0xFF] 0
        = (json_dumps (float_repr test_runtime) (error_response 4), 0)
   \<and> request_parser test_runtime sample_run ''{\"commands\": 5}'' 0
        = (json_dumps (float_repr test_runtime) (error_response 4), 0)
   \<and> request_parser test_runtime sample_run ''{\"commands\": [{\"id\": \"7\", \"method\": \"sleep 100\"}]}'' 0
        = (json_dumps (float_repr test_runtime) (error_response 4), 1)"
proof -
  have e1: "request_parser_try test_runtime sample_run [CHR 0xFF] 0 = (Inl UnicodeDecodeError, 0)"
    by (simp add: parser_eval loads_eval test_runtime_def)
  have e2: "request_parser_try test_runtime sample_run ''{\"commands\": 5}'' 0 = (Inl TypeError, 0)"
    by (simp add: parser_eval loads_eval test_runtime_def)
  have e3: "request_parser_try test_runtime sample_run
      ''{\"commands\": [{\"id\": \"7\", \"method\": \"sleep 100\"}]}'' 0 = (Inl TimeoutExpired, 1)"
    by (simp add: parser_eval loads_eval test_runtime_def sample_run_def)
  have c1: "request_parser test_runtime sample_run [CHR 0xFF] 0
        = (json_dumps (float_repr test_runtime) (error_response 4), 0)"
    using request_parser_always_responds [of test_runtime sample_run "[CHR 0xFF]" 0] e1
    by (auto simp: request_parser_def)
  have c2: "request_parser test_runtime sample_run ''{\"commands\": 5}'' 0
        = (json_dumps (float_repr test_runtime) (error_response 4), 0)"
    using request_parser_always_responds [of test_runtime sample_run "''{\"commands\": 5}''" 0] e2
    by (auto simp: request_parser_def)
  have c3: "request_parser test_runtime sample_run ''{\"commands\": [{\"id\": \"7\", \"method\": \"sleep 100\"}]}'' 0
        = (json_dumps (float_repr test_runtime) (error_response 4), 1)"
    using request_parser_always_responds [of test_runtime sample_run
        "''{\"commands\": [{\"id\": \"7\", \"method\": \"sleep 100\"}]}''" 0] e3
    by (auto simp: request_parser_def)
  from e1 e2 e3 c1 c2 c3 show ?thesis by simp
qed

section \<open>Properties of the Connection Handler\<close>

text \<open>
  The handler reads once, writes at most once and closes the connection on every path;
  it writes nothing when nothing was received.
\<close>

lemma handle_client_calls:
  "fst (handle_client rt run rcv sent w) = [SetTimeout, Recv 1024, Close]
   \<or> (\<exists>payload. fst (handle_client rt run rcv sent w) = [SetTimeout, Recv 1024, SendAll payload, Close])"
  by (auto simp: handle_client_def handle_client_try_def split: recv_result.splits option.splits prod.splits)

lemma handle_client_nothing_received:
  "rcv = Received [] \<or> rcv = RecvTimeout \<or> rcv = RecvError \<Longrightarrow>
   handle_client rt run rcv sent w = ([SetTimeout, Recv 1024, Close], w)"
  by (auto simp: handle_client_def handle_client_try_def)

text \<open>
  Claim C9 does not hold of the code for a request that is not UTF-8 text: the dispatcher
  would answer it with \<open>error_code\<close> 4, but the handler decodes the received octets for its
  log line first, that fails, and the connection is closed with nothing written.
\<close>

theorem handle_client_drops_undecodable_request:
  "handle_client test_runtime sample_run (Received [CHR 0xFF]) Sent 0 = ([SetTimeout, Recv 1024, Close], 0)
   \<and> request_parser test_runtime sample_run [CHR 0xFF] 0
       = (str ''{\"response\": {\"status\": false, \"error_code\": 4}}'', 0)"
  by (simp add: handle_client_def handle_client_try_def bytes_decode_def
      parser_eval loads_eval dumps_eval test_runtime_def)

section \<open>Properties of the client\<close>

text \<open>
  Claim C10. When command sourcing fails, so that \<open>generate_request\<close> returns
  \<open>(False, message)\<close>, \<open>send_request\<close> has connected, sends nothing, reads once and returns
  the text of the octets read; the message is not passed on.
\<close>

theorem send_request_sourcing_failed:
  assumes "generate_request rt fs uuid4 file_path stdin r = (Inr (StatusFalse message), stdin', r')"
  shows "send_request rt fs uuid4 Connected sent (Received data) file_path stdin r =
           (case bytes_decode data of None \<Rightarrow> Inl UnicodeDecodeError | Some t \<Rightarrow> Inr t,
            [Connect, ClientRecv 1024, ClientClose], stdin', r')"
  using assms by (simp add: send_request_def send_request_body_def)

theorem send_request_sourcing_failed_witness:
  "generate_request test_runtime sample_files sample_uuid4 (Some (str ''nonexistent.txt'')) [] 0
     = (Inr (StatusFalse (str ''Unable to locate file!'')), [], 0)
   \<and> send_request test_runtime sample_files sample_uuid4 Connected Sent (Received ''response'')
         (Some (str ''nonexistent.txt'')) [] 0
     = (Inr (str ''response''), [Connect, ClientRecv 1024, ClientClose], [], 0)"
proof -
  have g: "generate_request test_runtime sample_files sample_uuid4 (Some (str ''nonexistent.txt'')) [] 0
     = (Inr (StatusFalse (str ''Unable to locate file!'')), [], 0)"
    by (simp add: generate_request_def get_cmd_def read_commands_def sample_files_def)
  from send_request_sourcing_failed [OF g, of Sent "''response''"] g show ?thesis
    by (simp add: bytes_decode_def)
qed






section \<open>Properties of the Batch Codec\<close>

lemma hex_val_hex_digit: "d < 16 \<Longrightarrow> hex_val (hex_digit d) = Some d"
  by (simp add: hex_val_def hex_digit_def)

lemma hex4_value:
  fixes n :: nat
  assumes "n < 65536"
  shows "((n div 4096 mod 16 * 16 + n div 256 mod 16) * 16 + n div 16 mod 16) * 16 + n mod 16 = n"
proof -
  have d1: "n div 256 = n div 16 div 16" and d2: "n div 4096 = n div 16 div 16 div 16"
    by (simp_all add: div_mult2_eq [symmetric])
  have "n div 4096 mod 16 = n div 4096" using assms by simp
  then have "n div 4096 mod 16 * 16 + n div 256 mod 16 = n div 256"
    unfolding d1 d2 by (simp only: div_mult_mod_eq)
  then have "(n div 4096 mod 16 * 16 + n div 256 mod 16) * 16 + n div 16 mod 16 = n div 16"
    unfolding d1 by (simp only: div_mult_mod_eq)
  then show ?thesis by (simp only: div_mult_mod_eq)
qed

lemma u_escape_form: "\<exists>a b c d. u_escape n = [92, 117, a, b, c, d]"
  by (simp add: u_escape_def)

lemma decode_u_escape:
  assumes "n < 65536" and "u_escape n = [92, 117, a, b, c, d]"
  shows "decode_uXXXX (a # b # c # d # X) = Some n"
proof -
  from assms(2) have "map hex_val (take 4 (a # b # c # d # X))
      = [Some (n div 4096 mod 16), Some (n div 256 mod 16), Some (n div 16 mod 16), Some (n mod 16)]"
    by (auto simp: u_escape_def hex_val_hex_digit)
  then show ?thesis
    unfolding decode_uXXXX_def by (simp only: list.case option.case hex4_value [OF assms(1)])
qed

lemma scanstring_u_escape_plain:
  assumes "n < 65536" and "is_high n \<longrightarrow> lookahead_ok X"
  shows "scanstring (u_escape n @ X) = append_char n (scanstring X)"
proof -
  obtain a b c d where e: "u_escape n = [92, 117, a, b, c, d]" using u_escape_form by blast
  have d: "decode_uXXXX (a # b # c # d # X) = Some n" using assms(1) e by (rule decode_u_escape)
  have "scanstring (92 # 117 # a # b # c # d # X) = append_char n (scanstring X)"
  proof (cases "0xd800 \<le> n \<and> n \<le> 0xdbff \<and> take 2 X = [92, 117]")
    case True
    with assms(2) obtain u where u: "decode_uXXXX (drop 2 X) = Some u" "\<not> is_low u"
      by (auto simp: lookahead_ok_def is_high_def)
    from u(2) have nl: "\<not> (0xdc00 \<le> u \<and> u \<le> 0xdfff)" by (simp add: is_low_def)
    show ?thesis
      by (subst scanstring.simps) (simp add: d True u(1) nl)
  next
    case False
    show ?thesis
      by (subst scanstring.simps) (simp add: d False)
  qed
  then show ?thesis by (simp add: e)
qed

lemma surrogates_of:
  fixes c :: nat
  assumes "0x10000 \<le> c" "c < 0x110000"
  shows "0xd800 + (c - 0x10000) div 1024 mod 1024 \<le> 0xdbff"
    and "0xdc00 + (c - 0x10000) mod 1024 \<le> 0xdfff"
    and "0x10000 + ((c - 0x10000) div 1024 mod 1024 * 1024 + (c - 0x10000) mod 1024) = c"
proof -
  have l: "(c - 0x10000) div 1024 < 1024" using assms by simp
  then have m: "(c - 0x10000) div 1024 mod 1024 = (c - 0x10000) div 1024" by simp
  show "0xd800 + (c - 0x10000) div 1024 mod 1024 \<le> 0xdbff"
    using l unfolding m by simp
  show "0xdc00 + (c - 0x10000) mod 1024 \<le> 0xdfff"
    using mod_less_divisor [of 1024 "c - 0x10000"] by simp
  have "(c - 0x10000) div 1024 * 1024 + (c - 0x10000) mod 1024 = c - 0x10000"
    by (simp only: div_mult_mod_eq)
  then show "0x10000 + ((c - 0x10000) div 1024 mod 1024 * 1024 + (c - 0x10000) mod 1024) = c"
    unfolding m using assms(1) by simp
qed

lemma scanstring_u_escape_pair:
  fixes c :: nat
  assumes "0x10000 \<le> c" "c < 0x110000"
    and "s1 = 0xd800 + (c - 0x10000) div 1024 mod 1024"
    and "s2 = 0xdc00 + (c - 0x10000) mod 1024"
  shows "scanstring (u_escape s1 @ u_escape s2 @ X) = append_char c (scanstring X)"
proof -
  note s = surrogates_of [OF assms(1,2), folded assms(3,4)]
  have r1: "0xd800 \<le> s1" "0xdc00 \<le> s2" using assms(3,4) by simp_all
  obtain a b c' d where e1: "u_escape s1 = [92, 117, a, b, c', d]" using u_escape_form by blast
  obtain a2 b2 c2 d2 where e2: "u_escape s2 = [92, 117, a2, b2, c2, d2]" using u_escape_form by blast
  have d1: "decode_uXXXX (a # b # c' # d # 92 # 117 # a2 # b2 # c2 # d2 # X) = Some s1"
    using s(1) e1 by (intro decode_u_escape) simp_all
  have d2: "decode_uXXXX (a2 # b2 # c2 # d2 # X) = Some s2"
    using s(2) e2 by (intro decode_u_escape) simp_all
  have v: "0x10000 + ((s1 - 0xd800) * 1024 + (s2 - 0xdc00)) = c"
    using s(3) assms(3,4) by simp
  then have v': "0x10000 + ((s1 - 0xd800) * 1024 + s2 - 0xdc00) = c"
    using r1 by simp
  have "scanstring (92 # 117 # a # b # c' # d # 92 # 117 # a2 # b2 # c2 # d2 # X)
      = append_char c (scanstring X)"
    by (subst scanstring.simps) (simp add: d1 d2 r1 s(1,2) v v')
  then show ?thesis by (simp add: e1 e2)
qed

lemma scanstring_escape_ascii:
  assumes "c < 0x110000" and "is_high c \<longrightarrow> lookahead_ok X"
  shows "scanstring (escape_ascii c @ X) = append_char c (scanstring X)"
proof -
  consider "c = 92" | "c = 34" | "32 \<le> c \<and> c \<le> 126 \<and> c \<noteq> 92 \<and> c \<noteq> 34"
    | "c = 8" | "c = 12" | "c = 10" | "c = 13" | "c = 9"
    | "c \<noteq> 8 \<and> c \<noteq> 9 \<and> c \<noteq> 10 \<and> c \<noteq> 12 \<and> c \<noteq> 13 \<and> (c < 32 \<or> 126 < c) \<and> c < 0x10000"
    | "0x10000 \<le> c"
    by linarith
  then show ?thesis
  proof cases
    case 9
    then have "escape_ascii c = u_escape c" by (auto simp: escape_ascii_def)
    with 9 assms(2) show ?thesis by (simp add: scanstring_u_escape_plain)
  next
    case 10
    then have e: "escape_ascii c = u_escape (0xd800 + (c - 0x10000) div 1024 mod 1024)
            @ u_escape (0xdc00 + (c - 0x10000) mod 1024)"
      by (simp add: escape_ascii_def Let_def)
    show ?thesis
      unfolding e append_assoc by (rule scanstring_u_escape_pair [OF 10 assms(1) refl refl])
  qed (simp_all add: escape_ascii_def scanstring.simps backslash_def)
qed

lemma lookahead_ok_quote: "lookahead_ok (34 # rest)"
  by (simp add: lookahead_ok_def)

lemma lookahead_ok_u_escape:
  "n < 65536 \<Longrightarrow> \<not> is_low n \<Longrightarrow> lookahead_ok (u_escape n @ Y)"
proof -
  assume n: "n < 65536" "\<not> is_low n"
  obtain a b c d where e: "u_escape n = [92, 117, a, b, c, d]" using u_escape_form by blast
  have "decode_uXXXX (a # b # c # d # Y) = Some n" using n(1) e by (rule decode_u_escape)
  with n(2) show ?thesis by (simp add: lookahead_ok_def e)
qed

lemma lookahead_ok_escape_ascii:
  assumes "d < 0x110000" and "\<not> is_low d"
  shows "lookahead_ok (escape_ascii d @ Y)"
proof -
  consider "d = 92" | "d = 34" | "32 \<le> d \<and> d \<le> 126 \<and> d \<noteq> 92 \<and> d \<noteq> 34"
    | "d = 8" | "d = 12" | "d = 10" | "d = 13" | "d = 9"
    | "d \<noteq> 8 \<and> d \<noteq> 9 \<and> d \<noteq> 10 \<and> d \<noteq> 12 \<and> d \<noteq> 13 \<and> (d < 32 \<or> 126 < d) \<and> d < 0x10000"
    | "0x10000 \<le> d"
    by linarith
  then show ?thesis
  proof cases
    case 9
    then have "escape_ascii d = u_escape d" by (auto simp: escape_ascii_def)
    with 9 assms(2) show ?thesis by (simp add: lookahead_ok_u_escape)
  next
    case 10
    let ?s1 = "0xd800 + (d - 0x10000) div 1024 mod 1024"
    from 10 have e: "escape_ascii d = u_escape ?s1 @ u_escape (0xdc00 + (d - 0x10000) mod 1024)"
      by (simp add: escape_ascii_def Let_def)
    from surrogates_of(1) [OF 10 assms(1)] have "?s1 < 65536" "\<not> is_low ?s1"
      by (simp_all add: is_low_def)
    then show ?thesis unfolding e append_assoc by (rule lookahead_ok_u_escape)
  qed (simp_all add: escape_ascii_def lookahead_ok_def)
qed

lemma scanstring_escaped:
  "wf_text s \<Longrightarrow> scanstring (concat (map escape_ascii s) @ 34 # rest) = Some (s, rest)"
proof (induction s rule: wf_text.induct)
  case 1
  show ?case by (simp add: scanstring.simps)
next
  case (2 c)
  then have "scanstring (escape_ascii c @ 34 # rest) = append_char c (scanstring (34 # rest))"
    by (intro scanstring_escape_ascii) (simp_all add: lookahead_ok_quote)
  then show ?case by (simp add: scanstring.simps)
next
  case (3 c d cs)
  let ?X = "concat (map escape_ascii (d # cs)) @ 34 # rest"
  from "3.prems" have c: "c < 0x110000" and nl: "is_high c \<longrightarrow> \<not> is_low d"
    and wf: "wf_text (d # cs)" by auto
  from wf have d: "d < 0x110000" by (cases cs) simp_all
  have "is_high c \<longrightarrow> lookahead_ok ?X"
    using lookahead_ok_escape_ascii [OF d, of "concat (map escape_ascii cs) @ 34 # rest"] nl
    by simp
  with c have "scanstring (escape_ascii c @ ?X) = append_char c (scanstring ?X)"
    by (rule scanstring_escape_ascii)
  with "3.IH" [OF wf] show ?case by simp
qed

lemma scanstring_encode_basestring:
  "wf_text s \<Longrightarrow> scanstring (tl (encode_basestring_ascii s) @ rest) = Some (s, rest)"
  by (simp add: encode_basestring_ascii_def scanstring_escaped)

lemma dec_digits_digits: "\<forall>d \<in> set (dec_digits n). is_digit d"
  by (induction n rule: dec_digits.induct) (subst dec_digits.simps, auto simp: is_digit_def)

lemma dec_digits_nonempty: "dec_digits n \<noteq> []"
  by (subst dec_digits.simps) simp

lemma dec_digits_zero: "dec_digits 0 = [48]"
  by (subst dec_digits.simps) simp

lemma hd_dec_digits: "0 < n \<Longrightarrow> hd (dec_digits n) \<noteq> 48"
proof (induction n rule: dec_digits.induct)
  case (1 n)
  show ?case
  proof (cases "n < 10")
    case True
    with "1.prems" show ?thesis by (subst dec_digits.simps) simp
  next
    case False
    then have "0 < n div 10" by simp
    with "1.IH" False have "hd (dec_digits (n div 10)) \<noteq> 48" by simp
    with False show ?thesis
      by (subst dec_digits.simps) (simp add: dec_digits_nonempty)
  qed
qed

lemma nat_of_digits_snoc: "nat_of_digits (ds @ [d]) = 10 * nat_of_digits ds + (d - 48)"
  by (simp add: nat_of_digits_def)

lemma nat_of_digits_dec_digits: "nat_of_digits (dec_digits n) = n"
proof (induction n rule: dec_digits.induct)
  case (1 n)
  show ?case
  proof (cases "n < 10")
    case True
    then show ?thesis by (subst dec_digits.simps) (simp add: nat_of_digits_def)
  next
    case False
    with "1.IH" show ?thesis
      by (subst dec_digits.simps) (simp add: nat_of_digits_snoc)
  qed
qed

lemma takeWhile_digits:
  "\<forall>d \<in> set ds. is_digit d \<Longrightarrow> number_end rest \<Longrightarrow>
   takeWhile is_digit (ds @ rest) = ds \<and> dropWhile is_digit (ds @ rest) = rest"
  by (cases rest) (auto simp: number_end_def takeWhile_append dropWhile_append)

lemma match_integer_digits:
  assumes "number_end rest"
  shows "match_integer (dec_digits n @ rest) = Some (dec_digits n, rest)"
proof (cases "n = 0")
  case True
  then show ?thesis by (simp add: dec_digits_zero match_integer_def)
next
  case False
  obtain d ds where ds: "dec_digits n = d # ds" using dec_digits_nonempty by (cases "dec_digits n") auto
  with False hd_dec_digits [of n] have d: "d \<noteq> 48" "d \<noteq> 45" "is_digit d" "\<forall>x \<in> set ds. is_digit x"
    using dec_digits_digits [of n] by (auto simp: is_digit_def)
  with takeWhile_digits [OF d(4) assms] show ?thesis
    by (simp add: ds match_integer_def)
qed

lemma match_integer_minus_digits:
  assumes "number_end rest"
  shows "match_integer (45 # dec_digits n @ rest) = Some (45 # dec_digits n, rest)"
proof (cases "n = 0")
  case True
  then show ?thesis by (simp add: dec_digits_zero match_integer_def)
next
  case False
  obtain d ds where ds: "dec_digits n = d # ds" using dec_digits_nonempty by (cases "dec_digits n") auto
  with False hd_dec_digits [of n] have d: "d \<noteq> 48" "is_digit d" "\<forall>x \<in> set ds. is_digit x"
    using dec_digits_digits [of n] by (auto simp: is_digit_def)
  with takeWhile_digits [OF d(3) assms] show ?thesis
    by (simp add: ds match_integer_def)
qed

lemma match_frac_end: "number_end rest \<Longrightarrow> match_frac rest = ([], rest)"
  by (auto simp: match_frac_def number_end_def split: list.splits)

lemma match_exp_end: "number_end rest \<Longrightarrow> match_exp rest = ([], rest)"
  by (auto simp: match_exp_def number_end_def split: list.splits)

lemma match_number_int_repr:
  assumes "number_end rest"
  shows "match_number (int_repr i @ rest) = Some (JInt i, rest)"
proof (cases "i < 0")
  case True
  have "parse_int (45 # dec_digits (nat (- i))) = i"
    using True by (simp add: parse_int_def nat_of_digits_dec_digits)
  with True assms show ?thesis
    by (simp add: int_repr_def match_number_def match_integer_minus_digits match_frac_end match_exp_end)
next
  case False
  obtain d ds where ds: "dec_digits (nat i) = d # ds"
    using dec_digits_nonempty by (cases "dec_digits (nat i)") auto
  with dec_digits_digits [of "nat i"] have "d \<noteq> 45" by (auto simp: is_digit_def)
  with ds have "parse_int (dec_digits (nat i)) = int (nat_of_digits (dec_digits (nat i)))"
    by (simp add: parse_int_def)
  with False have "parse_int (dec_digits (nat i)) = i" by (simp add: nat_of_digits_dec_digits)
  with False assms show ?thesis
    by (simp add: int_repr_def match_number_def match_integer_digits match_frac_end match_exp_end)
qed

lemma int_repr_head: "\<exists>c r. int_repr i = c # r \<and> (is_digit c \<or> c = 45)"
proof -
  obtain d ds where ds: "dec_digits (nat \<bar>i\<bar>) = d # ds"
    using dec_digits_nonempty by (cases "dec_digits (nat \<bar>i\<bar>)") auto
  with dec_digits_digits [of "nat \<bar>i\<bar>"] have "is_digit d" by auto
  with ds show ?thesis by (cases "i < 0") (auto simp: int_repr_def)
qed

lemma delimited_simps [simp]:
  "delimited []" "delimited (44 # r)" "delimited (93 # r)" "delimited (125 # r)"
  by (simp_all add: delimited_def)

lemma delimited_number_end: "delimited rest \<Longrightarrow> number_end rest"
  by (auto simp: delimited_def number_end_def is_digit_def split: list.splits)

lemma value_start_not_ws: "value_start c \<Longrightarrow> \<not> is_ws c \<and> c \<noteq> 93 \<and> c \<noteq> 125"
  by (auto simp: value_start_def is_ws_def is_digit_def)

lemma skip_ws_start: "value_start c \<Longrightarrow> skip_ws (c # r) = c # r"
  by (auto simp: skip_ws_def dest: value_start_not_ws)

lemma skip_ws_space: "skip_ws (32 # r) = skip_ws r"
  by (simp add: skip_ws_def is_ws_def)

lemma skip_ws_punct [simp]:
  "skip_ws (44 # r) = 44 # r" "skip_ws (58 # r) = 58 # r" "skip_ws (93 # r) = 93 # r"
  "skip_ws (125 # r) = 125 # r"
  by (simp_all add: skip_ws_def is_ws_def)

lemma dumps_head: "wf_json v \<Longrightarrow> \<exists>c r. json_dumps fr v = c # r \<and> value_start c"
proof (cases v)
  case (JInt i)
  with int_repr_head [of i] show ?thesis by (auto simp: json_dumps.simps value_start_def)
qed (auto simp: json_dumps.simps value_start_def encode_basestring_ascii_def)

lemma dumps_items_head:
  "xs \<noteq> [] \<Longrightarrow> wf_items xs \<Longrightarrow> \<exists>c r. dumps_items fr xs = c # r \<and> value_start c"
proof (cases xs)
  case (Cons x ys)
  assume "wf_items xs"
  with Cons have "wf_json x" by simp
  from dumps_head [OF this, of fr] Cons show ?thesis
    by (cases ys) (auto simp: json_dumps.simps)
qed simp

lemma dumps_pairs_head: "ps \<noteq> [] \<Longrightarrow> \<exists>r. dumps_pairs fr ps = 34 # r"
proof (cases ps)
  case (Cons p qs)
  then show ?thesis
    by (cases p; cases qs) (auto simp: json_dumps.simps encode_basestring_ascii_def)
qed simp

lemma dict_set_fresh: "k \<notin> fst ` set d \<Longrightarrow> dict_set d k v = d @ [(k, v)]"
  by (induction d k v rule: dict_set.induct) auto

lemma dict_of_pairs_distinct_aux:
  "distinct (map fst (d @ ps)) \<Longrightarrow> foldl (\<lambda>d (k, v). dict_set d k v) d ps = d @ ps"
proof (induction ps arbitrary: d)
  case Nil
  then show ?case by simp
next
  case (Cons p ps)
  obtain k v where p: "p = (k, v)" by (cases p)
  with Cons.prems have "k \<notin> fst ` set d" by auto
  then have "dict_set d k v = d @ [(k, v)]" by (rule dict_set_fresh)
  with Cons.IH [of "d @ [(k, v)]"] Cons.prems p show ?case by simp
qed

lemma dict_of_pairs_distinct: "distinct (map fst ps) \<Longrightarrow> dict_of_pairs ps = ps"
  using dict_of_pairs_distinct_aux [of "[]" ps] by (simp add: dict_of_pairs_def)

lemma scan_once_literals:
  "scan_once n (str ''null'' @ rest) = Parsed JNull rest"
  "scan_once n (str ''true'' @ rest) = Parsed (JBool True) rest"
  "scan_once n (str ''false'' @ rest) = Parsed (JBool False) rest"
  by (simp_all add: scan_once.simps startswith_def)

lemma scan_once_int:
  assumes "delimited rest"
  shows "scan_once n (int_repr i @ rest) = Parsed (JInt i) rest"
proof -
  obtain c r where c: "int_repr i = c # r" "is_digit c \<or> c = 45"
    using int_repr_head by blast
  from c(2) have ne: "c \<noteq> 34" "c \<noteq> 123" "c \<noteq> 91" "c \<noteq> 110" "c \<noteq> 116" "c \<noteq> 102"
    by (auto simp: is_digit_def)
  have "match_number (c # r @ rest) = Some (JInt i, rest)"
    using match_number_int_repr [OF delimited_number_end [OF assms], of i] c(1) by simp
  with ne show ?thesis
    by (simp add: c(1) scan_once.simps startswith_def)
qed

lemma scan_once_string:
  "wf_text s \<Longrightarrow> scan_once n (encode_basestring_ascii s @ rest) = Parsed (JStr s) rest"
  using scanstring_escaped [of s rest]
  by (simp add: scan_once.simps encode_basestring_ascii_def)

lemma scan_once_dumps:
  "wf_json v \<Longrightarrow> delimited rest \<Longrightarrow> length (json_dumps fr v @ rest) \<le> n \<Longrightarrow>
     scan_once n (json_dumps fr v @ rest) = Parsed v rest"
  and array_loop_dumps:
  "xs \<noteq> [] \<Longrightarrow> wf_items xs \<Longrightarrow> length (dumps_items fr xs @ 93 # rest) < n \<Longrightarrow>
     array_loop n (dumps_items fr xs @ 93 # rest) acc = Parsed (JList (acc @ xs)) rest"
  and object_loop_dumps:
  "ps \<noteq> [] \<Longrightarrow> wf_pairs ps \<Longrightarrow> length (tl (dumps_pairs fr ps) @ 125 # rest) < n \<Longrightarrow>
     object_loop n (tl (dumps_pairs fr ps) @ 125 # rest) pairs
       = Parsed (JObj (dict_of_pairs (pairs @ ps))) rest"
proof (induction fr v and fr xs and fr ps arbitrary: rest n and rest n acc and rest n pairs
    rule: json_dumps_dumps_items_dumps_pairs.induct)
  case (1 fr)
  show ?case by (simp add: json_dumps.simps scan_once.simps startswith_def)
next
  case (2 fr b)
  show ?case by (simp add: json_dumps.simps scan_once.simps startswith_def)
next
  case (3 fr i)
  then show ?case by (simp add: json_dumps.simps scan_once_int)
next
  case (4 fr x)
  then show ?case by simp
next
  case (5 fr s)
  then show ?case by (simp add: json_dumps.simps scan_once_string)
next
  case (6 fr xs)
  show ?case
  proof (cases "xs = []")
    case True
    then show ?thesis by (simp add: json_dumps.simps scan_once.simps)
  next
    case False
    from "6.prems" have wf: "wf_items xs" by simp
    from dumps_items_head [OF False wf, of fr] obtain c r where
      h: "dumps_items fr xs = c # r" "value_start c" by blast
    from "6.prems"(3) have len: "length (dumps_items fr xs @ 93 # rest) < n"
      by (simp add: json_dumps.simps)
    have "scan_once n (91 # dumps_items fr xs @ 93 # rest)
        = array_loop n (dumps_items fr xs @ 93 # rest) []"
      using h value_start_not_ws [OF h(2)]
      by (simp add: scan_once.simps skip_ws_start)
    also have "\<dots> = Parsed (JList ([] @ xs)) rest"
      using False wf len by (rule "6.IH")
    finally show ?thesis by (simp add: json_dumps.simps)
  qed
next
  case (7 fr d)
  show ?case
  proof (cases "d = []")
    case True
    then show ?thesis by (simp add: json_dumps.simps scan_once.simps)
  next
    case False
    from "7.prems" have wf: "wf_pairs d" and dist: "distinct (map fst d)" by simp_all
    from dumps_pairs_head [OF False, of fr] obtain r where h: "dumps_pairs fr d = 34 # r" by blast
    from "7.prems"(3) h have len: "length (tl (dumps_pairs fr d) @ 125 # rest) < n"
      by (simp add: json_dumps.simps)
    have "skip_ws (34 # r @ 125 # rest) = 34 # r @ 125 # rest"
      by (simp add: skip_ws_def is_ws_def)
    then have "scan_once n (123 # dumps_pairs fr d @ 125 # rest)
        = object_loop n (tl (dumps_pairs fr d) @ 125 # rest) []"
      using h by (simp add: scan_once.simps)
    also have "\<dots> = Parsed (JObj (dict_of_pairs ([] @ d))) rest"
      using False wf len by (rule "7.IH")
    finally show ?thesis using dist by (simp add: json_dumps.simps dict_of_pairs_distinct)
  qed
next
  case (8 fr)
  then show ?case by simp
next
  case (9 fr x)
  from "9.prems" have wf: "wf_json x" by simp
  from "9.prems"(3) obtain m where n: "n = Suc m" by (cases n) auto
  with "9.prems"(3) have len: "length (json_dumps fr x @ 93 # rest) \<le> m"
    by (simp add: json_dumps.simps)
  have "scan_once m (json_dumps fr x @ 93 # rest) = Parsed x (93 # rest)"
    using wf _ len by (rule "9.IH") simp
  then show ?case by (simp add: n json_dumps.simps)
next
  case (10 fr x y ys)
  let ?tail = "dumps_items fr (y # ys) @ 93 # rest"
  from "10.prems" have wf: "wf_json x" and wfs: "wf_items (y # ys)" by simp_all
  from "10.prems"(3) obtain m where n: "n = Suc m" by (cases n) auto
  with "10.prems"(3) have len: "length (json_dumps fr x @ 44 # 32 # ?tail) \<le> m"
    by (simp add: json_dumps.simps)
  then have len': "length ?tail < m" by simp
  from dumps_items_head [OF _ wfs, of fr] obtain c r where
    h: "dumps_items fr (y # ys) = c # r" "value_start c" by blast
  have s: "skip_ws (32 # ?tail) = ?tail"
    using h by (simp add: skip_ws_space skip_ws_start)
  have "scan_once m (json_dumps fr x @ 44 # 32 # ?tail) = Parsed x (44 # 32 # ?tail)"
    using wf _ len by (rule "10.IH"(1)) simp
  moreover have "array_loop m ?tail (acc @ [x]) = Parsed (JList ((acc @ [x]) @ y # ys)) rest"
    using _ wfs len' by (rule "10.IH"(2)) simp
  ultimately show ?case by (simp add: n json_dumps.simps s)
next
  case (11 fr)
  then show ?case by simp
next
  case (12 fr k v)
  from "12.prems" have wfk: "wf_text k" and wf: "wf_json v" by simp_all
  from "12.prems"(3) obtain m where n: "n = Suc m" by (cases n) auto
  let ?X = "58 # 32 # json_dumps fr v @ 125 # rest"
  have t: "tl (dumps_pairs fr [(k, v)]) @ 125 # rest = tl (encode_basestring_ascii k) @ ?X"
    by (simp add: json_dumps.simps encode_basestring_ascii_def)
  from "12.prems"(3) n have len: "length (json_dumps fr v @ 125 # rest) \<le> m"
    unfolding t by simp
  from dumps_head [OF wf, of fr] obtain c r where h: "json_dumps fr v = c # r" "value_start c"
    by blast
  have s: "skip_ws (32 # json_dumps fr v @ 125 # rest) = json_dumps fr v @ 125 # rest"
    using h by (simp add: skip_ws_space skip_ws_start)
  have k: "scanstring (tl (encode_basestring_ascii k) @ ?X) = Some (k, ?X)"
    using wfk by (rule scanstring_encode_basestring)
  have v: "scan_once m (json_dumps fr v @ 125 # rest) = Parsed v (125 # rest)"
    using wf _ len by (rule "12.IH") simp
  show ?case unfolding t n by (simp add: k s v)
next
  case (13 fr k v p ps)
  from "13.prems" have wfk: "wf_text k" and wf: "wf_json v" and wfs: "wf_pairs (p # ps)"
    by simp_all
  from "13.prems"(3) obtain m where n: "n = Suc m" by (cases n) auto
  from dumps_pairs_head [of "p # ps" fr] obtain r' where hp: "dumps_pairs fr (p # ps) = 34 # r'"
    by auto
  let ?tail = "tl (dumps_pairs fr (p # ps)) @ 125 # rest"
  let ?Y = "44 # 32 # 34 # ?tail"
  let ?X = "58 # 32 # json_dumps fr v @ ?Y"
  have t: "tl (dumps_pairs fr ((k, v) # p # ps)) @ 125 # rest = tl (encode_basestring_ascii k) @ ?X"
    using hp by (simp add: json_dumps.simps encode_basestring_ascii_def)
  from "13.prems"(3) n have len: "length (json_dumps fr v @ ?Y) \<le> m"
    unfolding t by simp
  then have len': "length ?tail < m" by simp
  from dumps_head [OF wf, of fr] obtain c r where h: "json_dumps fr v = c # r" "value_start c"
    by blast
  have s: "skip_ws (32 # json_dumps fr v @ ?Y) = json_dumps fr v @ ?Y"
    using h by (simp add: skip_ws_space skip_ws_start)
  have s2: "skip_ws (32 # 34 # ?tail) = 34 # ?tail"
    by (simp add: skip_ws_def is_ws_def)
  have k: "scanstring (tl (encode_basestring_ascii k) @ ?X) = Some (k, ?X)"
    using wfk by (rule scanstring_encode_basestring)
  have v: "scan_once m (json_dumps fr v @ ?Y) = Parsed v ?Y"
    using wf _ len by (rule "13.IH"(1)) simp
  have l: "object_loop m ?tail (pairs @ [(k, v)])
      = Parsed (JObj (dict_of_pairs ((pairs @ [(k, v)]) @ p # ps))) rest"
    using _ wfs len' by (rule "13.IH"(2)) simp
  show ?case unfolding t n by (simp add: k s s2 v l)
qed

lemma printable_Nil [simp]: "printable []"
  by (simp add: printable_def)

lemma printable_Cons [simp]: "printable (c # s) = (32 \<le> c \<and> c \<le> 126 \<and> printable s)"
  by (auto simp: printable_def)

lemma printable_append [simp]: "printable (s @ t) = (printable s \<and> printable t)"
  by (auto simp: printable_def)

lemma hex_digit_printable: "x < 16 \<Longrightarrow> 32 \<le> hex_digit x \<and> hex_digit x \<le> 126"
  by (simp add: hex_digit_def)

lemma printable_u_escape: "printable (u_escape n)"
  by (simp add: u_escape_def hex_digit_printable)

lemma printable_escape_ascii: "printable (escape_ascii c)"
  by (simp add: escape_ascii_def Let_def printable_u_escape)

lemma printable_encode_basestring: "printable (encode_basestring_ascii s)"
  by (induction s) (simp_all add: encode_basestring_ascii_def printable_escape_ascii)

lemma printable_int_repr: "printable (int_repr i)"
proof -
  have "printable (dec_digits n)" for n
    using dec_digits_digits [of n] by (auto simp: printable_def is_digit_def)
  then show ?thesis by (simp add: int_repr_def)
qed

lemma printable_dumps:
  "wf_json v \<Longrightarrow> printable (json_dumps fr v)"
  "wf_items xs \<Longrightarrow> printable (dumps_items fr xs)"
  "wf_pairs ps \<Longrightarrow> printable (dumps_pairs fr ps)"
  by (induction fr v and fr xs and fr ps rule: json_dumps_dumps_items_dumps_pairs.induct)
    (simp_all add: json_dumps.simps printable_encode_basestring printable_int_repr)

lemma utf8_encode_printable: "printable s \<Longrightarrow> utf8_encode s = Some s"
  by (induction s) simp_all

lemma str_encode_printable: "printable s \<Longrightarrow> str_encode s = Some (map char_of s)"
  by (simp add: str_encode_def utf8_encode_printable)

lemma of_char_char_of_printable: "printable s \<Longrightarrow> map of_char (map char_of s) = s"
  by (induction s) simp_all

lemma utf8_decode_printable: "printable s \<Longrightarrow> utf8_decode sp s = Some s"
  by (induction s) (simp_all add: cons_opt_def)

lemma detect_encoding_printable: "printable s \<Longrightarrow> detect_encoding s = UTF8"
proof -
  assume p: "printable s"
  have nz: "s ! k \<noteq> 0" if "k < length s" for k
    using p that by (auto simp: printable_def dest!: nth_mem)
  have b: "\<not> startswith s (c # cs)" if "c < 32 \<or> 126 < c" for c cs
    using p that by (cases s) (auto simp: startswith_def)
  have four: "s ! 0 \<noteq> 0 \<and> s ! 1 \<noteq> 0" if "4 \<le> length s"
  proof -
    from that have "0 < length s" "1 < length s" by linarith+
    then show ?thesis using nz by blast
  qed
  have two: "s ! 0 \<noteq> 0 \<and> s ! 1 \<noteq> 0" if "length s = 2"
  proof -
    from that have "0 < length s" "1 < length s" by linarith+
    then show ?thesis using nz by blast
  qed
  show ?thesis
    unfolding detect_encoding_def using four two by (auto simp: b)
qed

lemma of_char_char_of_printable': "printable s \<Longrightarrow> map (of_char \<circ> char_of) s = s"
  using of_char_char_of_printable by simp

lemma skip_ws_Nil [simp]: "skip_ws [] = []"
  by (simp add: skip_ws_def)

lemma loads_text_printable: "printable s \<Longrightarrow> loads_text rt (map char_of s) = Some s"
  by (simp add: loads_text_def of_char_char_of_printable' detect_encoding_printable
      utf8_decode_printable)

lemma decode_dumps: "wf_json v \<Longrightarrow> decode (json_dumps fr v) = Some v"
proof -
  assume wf: "wf_json v"
  from dumps_head [OF wf, of fr] obtain c r where h: "json_dumps fr v = c # r" "value_start c"
    by blast
  then have s: "skip_ws (json_dumps fr v) = json_dumps fr v" by (simp add: skip_ws_start)
  have "scan_once (length (json_dumps fr v)) (json_dumps fr v @ []) = Parsed v []"
    using wf by (intro scan_once_dumps) simp_all
  then show ?thesis by (simp add: decode_def s)
qed

lemma loads_dumps:
  assumes "wf_json v"
  shows "str_encode (json_dumps fr v) = Some (map char_of (json_dumps fr v))"
    and "json_loads rt (map char_of (json_dumps fr v)) = Inr v"
proof -
  from assms have p: "printable (json_dumps fr v)" by (rule printable_dumps)
  then show "str_encode (json_dumps fr v) = Some (map char_of (json_dumps fr v))"
    by (rule str_encode_printable)
  show "json_loads rt (map char_of (json_dumps fr v)) = Inr v"
    by (simp add: json_loads_def loads_text_printable [OF p] decode_dumps [OF assms])
qed

end
